theory Spec2Isabelle
  imports Complex_Main "HOL-Library.Word" "HOL-Library.Sublist"
begin

section \<open>Template matching by integral images (tpl/tpl.cpp)\<close>

text \<open>
  The program searches a needle image in a haystack image.  It builds the integral
  image of both, scores every scanned window position by the difference of the
  window's intensity sum and the needle's, keeps a bounded sorted list of candidates
  and refines them by a brute-force sum of absolute differences.

  The embedding follows the source line by line.  C's \<open>int\<close> is a 32-bit word read
  with \<open>sint\<close>; addition, subtraction and multiplication wrap around, which is what
  the compiled program does where C++ leaves a signed overflow undefined.
  \<open>uchar\<close> is an 8-bit word and \<open>unsigned long long\<close> a 64-bit word.  The
  \<open>float\<close> result is modelled by the real number the float expression denotes;
  every statement below about it depends only on the integers it is computed from.
\<close>

subsection \<open>Data\<close>

type_synonym uchar = "8 word"
type_synonym int32 = "32 word"
type_synonym uint64 = "64 word"

text \<open>\<open>cv::Vec3b\<close>: the three channels of a pixel.\<close>

datatype vec3b = Vec3b (val0: uchar) (val1: uchar) (val2: uchar)

text \<open>
  \<open>cv::Mat\<close>: the number of rows and columns and the dense grid of elements, one
  list per row.
\<close>

record 'a mat =
  rows :: nat
  cols :: nat
  data :: "'a list list"

text \<open>The grid has \<open>rows\<close> rows of \<open>cols\<close> elements each.\<close>

definition mat_ok :: "'a mat \<Rightarrow> bool" where
  "mat_ok m \<longleftrightarrow> length (data m) = rows m \<and> list_all (\<lambda>r. length r = cols m) (data m)"

text \<open>\<open>Mat::empty()\<close>: no elements.\<close>

definition empty_mat :: "'a mat \<Rightarrow> bool" where
  "empty_mat m \<longleftrightarrow> rows m = 0 \<or> cols m = 0"

text \<open>\<open>m.at<T>(Point(x, y))\<close>: column \<open>x\<close> of row \<open>y\<close>.\<close>

definition at_pt :: "'a mat \<Rightarrow> nat \<Rightarrow> nat \<Rightarrow> 'a" where
  "at_pt m x y = data m ! y ! x"

text \<open>\<open>m.at<T>(i, j)\<close>: row \<open>i\<close>, column \<open>j\<close>.\<close>

definition at_rc :: "'a mat \<Rightarrow> nat \<Rightarrow> nat \<Rightarrow> 'a" where
  "at_rc m i j = data m ! i ! j"

text \<open>The assignment \<open>m.at<T>(Point(x, y)) = v\<close>.\<close>

definition put_pt :: "'a mat \<Rightarrow> nat \<Rightarrow> nat \<Rightarrow> 'a \<Rightarrow> 'a mat" where
  "put_pt m x y v = m\<lparr>data := (data m)[y := (data m ! y)[x := v]]\<rparr>"

text \<open>
  \<open>sum.create(rows, cols, type)\<close> allocates the grid.  Its cells are
  uninitialised in C++; \<open>integral\<close> writes each cell before any read of it, so the
  model fills them with 0.  The source allocates three \<open>int\<close> per element and
  addresses \<open>int\<close> number \<open>x\<close> of row \<open>y\<close> through \<open>at<int>\<close>, with \<open>x\<close>
  below \<open>cols\<close> in every write and read: the grid modelled here.
\<close>

definition create :: "nat \<Rightarrow> nat \<Rightarrow> int32 mat" where
  "create r c = \<lparr>rows = r, cols = c, data = replicate r (replicate c 0)\<rparr>"

subsection \<open>The integral image (\<open>tpl::integral\<close>)\<close>

text \<open>\<open>c.val[0] + c.val[1] + c.val[2]\<close>, the channels promoted to \<open>int\<close>.\<close>

definition chan_sum :: "vec3b \<Rightarrow> int32" where
  "chan_sum c = ucast (val0 c) + ucast (val1 c) + ucast (val2 c)"

text \<open>The body of the inner loop: the state is the running row sum \<open>s\<close> and \<open>sum\<close>.\<close>

definition integral_px :: "vec3b mat \<Rightarrow> nat \<Rightarrow> nat \<Rightarrow> int32 \<times> int32 mat \<Rightarrow> int32 \<times> int32 mat" where
  "integral_px src y x = (\<lambda>(s, sm).
     let c = at_pt src x y;
         s' = s + chan_sum c;
         a = (if y > 0 then at_pt sm x (y - 1) else 0)
     in (s', put_pt sm x y (s' + a)))"

text \<open>One row: \<open>int s = 0; for (int x = 0; x < src.cols; ++x) ...\<close>.\<close>

definition integral_row :: "vec3b mat \<Rightarrow> nat \<Rightarrow> int32 mat \<Rightarrow> int32 mat" where
  "integral_row src y sm = snd (fold (integral_px src y) [0..<cols src] (0, sm))"

definition integral :: "vec3b mat \<Rightarrow> int32 mat" where
  "integral src = fold (integral_row src) [0..<rows src] (create (rows src) (cols src))"

subsection \<open>The scan and the candidate list (\<open>main\<close>, lines 99 to 129)\<close>

text \<open>\<open>struct item\<close>: a candidate.\<close>

record item =
  item_diff :: int32
  item_x :: nat
  item_y :: nat
  item_sum :: int32

text \<open>The four lookups of lines 106 to 109.\<close>

definition window_sum :: "int32 mat \<Rightarrow> nat \<Rightarrow> nat \<Rightarrow> nat \<Rightarrow> nat \<Rightarrow> int32" where
  "window_sum hs nrows ncols y x =
     at_rc hs y x + at_rc hs (y + nrows) (x + ncols)
       - at_rc hs y (x + ncols) - at_rc hs (y + nrows) x"

text \<open>\<open>abs\<close> on \<open>int\<close>; the negation wraps around at the least \<open>int\<close>.\<close>

definition c_abs :: "int32 \<Rightarrow> int32" where
  "c_abs v = (if v <s 0 then - v else v)"

text \<open>
  The loop over the deque of lines 114 to 120: the item is inserted before the first
  element of greater diff; when there is none the loop ends and nothing is inserted.
\<close>

fun insert_before :: "item \<Rightarrow> item list \<Rightarrow> item list" where
  "insert_before itm [] = []"
| "insert_before itm (c # cs) =
     (if item_diff itm <s item_diff c then itm # c # cs else c # insert_before itm cs)"

text \<open>Lines 113 to 127: insertion, then \<open>pop_back\<close> when more than 50 are held.\<close>

definition deq_add :: "item \<Rightarrow> item list \<Rightarrow> item list" where
  "deq_add itm deq =
     (let deq1 = (if length deq > 0 then insert_before itm deq else itm # deq)
      in if length deq1 > 50 then butlast deq1 else deq1)"

text \<open>Lines 106 to 112: the candidate scored at window position \<open>(x, y)\<close>.\<close>

definition candidate :: "int32 mat \<Rightarrow> nat \<Rightarrow> nat \<Rightarrow> int32 \<Rightarrow> nat \<Rightarrow> nat \<Rightarrow> item" where
  "candidate hs nrows ncols ns y x =
     (let s = window_sum hs nrows ncols y x;
          d = c_abs (s - ns)
      in \<lparr>item_diff = d, item_x = x, item_y = y, item_sum = s\<rparr>)"

text \<open>The body of the scan at window position \<open>(x, y)\<close>.\<close>

definition scan_px :: "int32 mat \<Rightarrow> nat \<Rightarrow> nat \<Rightarrow> int32 \<Rightarrow> nat \<Rightarrow> nat \<Rightarrow> item list \<Rightarrow> item list" where
  "scan_px hs nrows ncols ns y x deq = deq_add (candidate hs nrows ncols ns y x) deq"

text \<open>
  The loop bounds are \<open>int\<close> differences: when the needle is not smaller the
  difference is not positive and the loop body never runs.
\<close>

definition scan_row :: "int32 mat \<Rightarrow> nat \<Rightarrow> nat \<Rightarrow> int32 \<Rightarrow> nat \<Rightarrow> item list \<Rightarrow> item list" where
  "scan_row hs nrows ncols ns y deq =
     fold (scan_px hs nrows ncols ns y) [0..<nat (int (cols hs) - int ncols)] deq"

definition scan :: "int32 mat \<Rightarrow> nat \<Rightarrow> nat \<Rightarrow> int32 \<Rightarrow> item list" where
  "scan hs nrows ncols ns =
     fold (scan_row hs nrows ncols ns) [0..<nat (int (rows hs) - int nrows)] []"

subsection \<open>The refinement (\<open>main\<close>, lines 131 to 165)\<close>

text \<open>\<open>abs(c1.val[k] - c2.val[k])\<close>: the difference is taken in \<open>int\<close>.\<close>

definition absdiff :: "uchar \<Rightarrow> uchar \<Rightarrow> uint64" where
  "absdiff a b = word_of_int \<bar>uint a - uint b\<bar>"

text \<open>The three additions to \<open>s\<close> for needle pixel \<open>(i, j)\<close>.\<close>

definition sad_px :: "vec3b mat \<Rightarrow> vec3b mat \<Rightarrow> item \<Rightarrow> nat \<Rightarrow> nat \<Rightarrow> uint64 \<Rightarrow> uint64" where
  "sad_px haystack needle c j i s =
     (let c1 = at_pt haystack (item_x c + i) (item_y c + j);
          c2 = at_pt needle i j
      in s + absdiff (val0 c1) (val0 c2) + absdiff (val1 c1) (val1 c2)
           + absdiff (val2 c1) (val2 c2))"

definition sad :: "vec3b mat \<Rightarrow> vec3b mat \<Rightarrow> item \<Rightarrow> uint64" where
  "sad haystack needle c =
     fold (\<lambda>j s. fold (sad_px haystack needle c j) [0..<cols needle] s) [0..<rows needle] 0"

text \<open>The variables \<open>result\<close>, \<open>min\<close>, \<open>rx\<close> and \<open>ry\<close>.\<close>

record match_state =
  result :: real
  min_sad :: int32
  rx :: int
  ry :: int

text \<open>
  The loop over the candidates.  In \<open>s < min\<close> the \<open>int\<close> is converted to
  \<open>unsigned long long\<close>; \<open>min = s\<close> keeps the low 32 bits; the loop is left at
  the first candidate with \<open>s = 0\<close>.  The quotient \<open>float(min) / max\<close> is the
  real quotient where \<open>max\<close> is not 0 (in C++ a division by 0 gives an infinity or
  NaN, in HOL it gives 0); the statements below about a result of this loop are made
  where \<open>max\<close> is not 0.  The real value can differ from the rounded \<open>float\<close> in
  the last bits.  Rounding is monotone and keeps 0 and 1, so a real value between 0
  and 1 stays there and the value for \<open>min = 0\<close> is exactly 1 in both; and where
  \<open>0 < min \<le> max \<le> 2\<^sup>2\<^sup>4\<close> both integers are floats, the quotient is at least
  \<open>2\<^sup>-\<^sup>2\<^sup>4\<close> and the \<open>float\<close> result is below 1 as the real value is.
\<close>

fun brute_force :: "vec3b mat \<Rightarrow> vec3b mat \<Rightarrow> int32 \<Rightarrow> item list \<Rightarrow> match_state \<Rightarrow> match_state" where
  "brute_force haystack needle mx [] st = st"
| "brute_force haystack needle mx (c # cs) st =
     (let s = sad haystack needle c;
          st' = (if s < scast (min_sad st)
                 then let mn = (ucast s :: int32)
                      in \<lparr>result = 1 - real_of_int (sint mn) / real_of_int (sint mx),
                          min_sad = mn, rx = int (item_x c), ry = int (item_y c)\<rparr>
                 else st)
      in if s = 0 then st' else brute_force haystack needle mx cs st')"

text \<open>\<open>needle.rows * needle.cols * byte * nc\<close>, computed in \<open>int\<close>.\<close>

definition max_sad :: "vec3b mat \<Rightarrow> int32" where
  "max_sad needle = of_nat (rows needle) * of_nat (cols needle) * 255 * 3"

text \<open>Lines 135 to 139: the state before the brute-force loop.\<close>

definition init_state :: "item list \<Rightarrow> match_state" where
  "init_state deq =
     (let perfect = (deq \<noteq> [] \<and> item_diff (deq ! 0) = 0)
      in \<lparr>result = (if perfect then 1 else 0),
          min_sad = 2147483647,
          rx = (if perfect then int (item_x (deq ! 0)) else - 1),
          ry = (if perfect then int (item_y (deq ! 0)) else - 1)\<rparr>)"

text \<open>The candidate list that \<open>main\<close> builds from the two images.\<close>

definition candidates :: "vec3b mat \<Rightarrow> vec3b mat \<Rightarrow> item list" where
  "candidates haystack needle =
     (let haystack_sum = integral haystack;
          needle_sum = integral needle;
          ns = at_rc needle_sum (rows needle_sum - 1) (cols needle_sum - 1)
      in scan haystack_sum (rows needle_sum) (cols needle_sum) ns)"

datatype error = CouldNotLoad

text \<open>
  \<open>main\<close> from the loaded images on: an image without pixels ends the program with
  exit code 1; otherwise the final values of \<open>result\<close>, \<open>min\<close>, \<open>rx\<close>, \<open>ry\<close>.
\<close>

definition tpl_main :: "vec3b mat \<Rightarrow> vec3b mat \<Rightarrow> error + match_state" where
  "tpl_main haystack needle =
     (if empty_mat haystack \<or> empty_mat needle then Inl CouldNotLoad
      else
        let deq = candidates haystack needle;
            st = init_state deq
        in Inr (if result st \<noteq> 1
                then brute_force haystack needle (max_sad needle) deq st
                else st))"

section \<open>Vocabulary of the properties\<close>

text \<open>
  The quantities the properties speak about, computed by direct iteration over the
  pixels and in unbounded integers.
\<close>

text \<open>The sum of the three channel intensities of a pixel.\<close>

definition px_total :: "vec3b \<Rightarrow> int" where
  "px_total c = uint (val0 c) + uint (val1 c) + uint (val2 c)"

text \<open>
  The sum of all channel intensities of the pixels of the window of width \<open>w\<close> and
  height \<open>h\<close> whose top-left pixel is \<open>(x, y)\<close>, that is of
  \<open>[x, x + w) \<times> [y, y + h)\<close>.
\<close>

definition window_total :: "vec3b mat \<Rightarrow> nat \<Rightarrow> nat \<Rightarrow> nat \<Rightarrow> nat \<Rightarrow> int" where
  "window_total m x y w h =
     (\<Sum>j\<leftarrow>[0..<h]. \<Sum>i\<leftarrow>[0..<w]. px_total (at_pt m (x + i) (y + j)))"

text \<open>The sum over the rectangle \<open>[0, x] \<times> [0, y]\<close>.\<close>

definition rect_total :: "vec3b mat \<Rightarrow> nat \<Rightarrow> nat \<Rightarrow> int" where
  "rect_total m x y = window_total m 0 0 (Suc x) (Suc y)"

text \<open>The sum over the first \<open>k\<close> pixels of row \<open>y\<close>.\<close>

definition row_total :: "vec3b mat \<Rightarrow> nat \<Rightarrow> nat \<Rightarrow> int" where
  "row_total m y k = (\<Sum>i<k. px_total (at_pt m i y))"

text \<open>
  The sum of the absolute channel differences of two pixels, and the exact sum of
  absolute differences between the needle and the haystack window at \<open>(x, y)\<close>.
\<close>

definition px_absdiff :: "vec3b \<Rightarrow> vec3b \<Rightarrow> int" where
  "px_absdiff c1 c2 = \<bar>uint (val0 c1) - uint (val0 c2)\<bar> + \<bar>uint (val1 c1) - uint (val1 c2)\<bar>
                      + \<bar>uint (val2 c1) - uint (val2 c2)\<bar>"

definition sad_total :: "vec3b mat \<Rightarrow> vec3b mat \<Rightarrow> nat \<Rightarrow> nat \<Rightarrow> int" where
  "sad_total haystack needle x y =
     (\<Sum>j\<leftarrow>[0..<rows needle]. \<Sum>i\<leftarrow>[0..<cols needle].
        px_absdiff (at_pt haystack (x + i) (y + j)) (at_pt needle i j))"

text \<open>
  The candidates in the order in which the scan scores them: row by row, each row
  from left to right.
\<close>

definition scan_items :: "int32 mat \<Rightarrow> nat \<Rightarrow> nat \<Rightarrow> int32 \<Rightarrow> item list" where
  "scan_items hs nrows ncols ns =
     concat (map (\<lambda>y. map (candidate hs nrows ncols ns y) [0..<nat (int (cols hs) - int ncols)])
                 [0..<nat (int (rows hs) - int nrows)])"

text \<open>
  The needle fits into the haystack at \<open>(x0, y0)\<close> and the haystack window there is
  the needle, pixel by pixel.
\<close>

definition copied_at :: "vec3b mat \<Rightarrow> vec3b mat \<Rightarrow> nat \<Rightarrow> nat \<Rightarrow> bool" where
  "copied_at haystack needle x0 y0 \<longleftrightarrow>
     x0 + cols needle \<le> cols haystack \<and> y0 + rows needle \<le> rows haystack
     \<and> list_all (\<lambda>j. list_all (\<lambda>i. at_pt haystack (x0 + i) (y0 + j) = at_pt needle i j)
                              [0..<cols needle]) [0..<rows needle]"

section \<open>Concrete images\<close>

definition gray :: "nat \<Rightarrow> vec3b" where
  "gray n = Vec3b (of_nat n) (of_nat n) (of_nat n)"

definition black :: vec3b where
  "black = Vec3b 0 0 0"

definition white :: vec3b where
  "white = Vec3b 255 255 255"

text \<open>A black haystack with one other pixel in the middle, and that pixel as needle.\<close>

definition hay_a :: "vec3b mat" where
  "hay_a = \<lparr>rows = 3, cols = 3,
            data = [[Vec3b 0 0 0, Vec3b 0 0 0, Vec3b 0 0 0],
                    [Vec3b 0 0 0, Vec3b 1 0 0, Vec3b 0 0 0],
                    [Vec3b 0 0 0, Vec3b 0 0 0, Vec3b 0 0 0]]\<rparr>"

definition ndl_a :: "vec3b mat" where
  "ndl_a = \<lparr>rows = 1, cols = 1, data = [[Vec3b 1 0 0]]\<rparr>"

text \<open>
  A haystack whose pixels all are \<open>(0, 1, 0)\<close>: every window of one pixel has the
  intensity sum of the needle \<open>ndl_a\<close> and none is the needle.  And a haystack
  that holds \<open>ndl_a\<close> at \<open>(1, 0)\<close> and a pixel of the same sum at \<open>(2, 1)\<close>.
\<close>

definition hay_g :: "vec3b mat" where
  "hay_g = \<lparr>rows = 3, cols = 3,
            data = [[Vec3b 0 1 0, Vec3b 0 1 0, Vec3b 0 1 0],
                    [Vec3b 0 1 0, Vec3b 0 1 0, Vec3b 0 1 0],
                    [Vec3b 0 1 0, Vec3b 0 1 0, Vec3b 0 1 0]]\<rparr>"

definition hay_w :: "vec3b mat" where
  "hay_w = \<lparr>rows = 3, cols = 3,
            data = [[Vec3b 0 0 0, Vec3b 1 0 0, Vec3b 0 0 0],
                    [Vec3b 0 0 0, Vec3b 0 0 0, Vec3b 0 1 0],
                    [Vec3b 0 0 0, Vec3b 0 0 0, Vec3b 0 0 0]]\<rparr>"

text \<open>A haystack of two rows, and needles of one gray pixel.\<close>

definition hay_b :: "vec3b mat" where
  "hay_b = \<lparr>rows = 2, cols = 4,
            data = [[gray 0, gray 0, gray 0, gray 0], [gray 9, gray 3, gray 2, gray 2]]\<rparr>"

definition ndl_b :: "vec3b mat" where
  "ndl_b = \<lparr>rows = 1, cols = 1, data = [[gray 0]]\<rparr>"

definition ndl_g1 :: "vec3b mat" where
  "ndl_g1 = \<lparr>rows = 1, cols = 1, data = [[gray 1]]\<rparr>"

text \<open>A haystack whose pixels all differ.\<close>

definition hay_c :: "vec3b mat" where
  "hay_c = \<lparr>rows = 3, cols = 3,
            data = [[Vec3b 1 0 0, Vec3b 2 0 0, Vec3b 3 0 0],
                    [Vec3b 4 0 0, Vec3b 5 0 0, Vec3b 6 0 0],
                    [Vec3b 7 0 0, Vec3b 8 0 0, Vec3b 9 0 0]]\<rparr>"

text \<open>A uniform gray haystack and a needle of the same gray.\<close>

definition hay_u :: "vec3b mat" where
  "hay_u = \<lparr>rows = 2, cols = 3,
            data = [[gray 128, gray 128, gray 128], [gray 128, gray 128, gray 128]]\<rparr>"

definition ndl_u :: "vec3b mat" where
  "ndl_u = \<lparr>rows = 1, cols = 1, data = [[gray 128]]\<rparr>"

text \<open>
  Images of 1676 by 1676 pixels and more: a white image, whose total intensity
  \<open>1676 * 1676 * 765 = 2148866640\<close> is beyond the largest \<open>int\<close>,
  \<open>2147483647\<close>; a black haystack; and a needle that is black but for one white
  pixel.
\<close>

definition big_white :: "vec3b mat" where
  "big_white = \<lparr>rows = 1676, cols = 1676, data = replicate 1676 (replicate 1676 white)\<rparr>"

definition big_hay :: "vec3b mat" where
  "big_hay = \<lparr>rows = 1677, cols = 1677, data = replicate 1677 (replicate 1677 black)\<rparr>"

definition big_ndl :: "vec3b mat" where
  "big_ndl = \<lparr>rows = 1676, cols = 1676,
              data = (replicate 1676 (replicate 1676 black))[0 := (replicate 1676 black)[0 := white]]\<rparr>"

section \<open>The integral image\<close>

lemma px_total_bounds: "0 \<le> px_total c" "px_total c \<le> 765"
proof -
  have b: "uint w < 256" for w :: uchar
    using uint_bounded [of w] by simp
  show "0 \<le> px_total c" by (simp add: px_total_def)
  show "px_total c \<le> 765"
    using b [of "val0 c"] b [of "val1 c"] b [of "val2 c"] by (simp add: px_total_def)
qed

lemma chan_sum_eq: "chan_sum c = word_of_int (px_total c)"
  unfolding chan_sum_def px_total_def ucast_eq by (simp only: of_int_add)

lemma window_total_sum:
  "window_total m x y w h = (\<Sum>j<h. \<Sum>i<w. px_total (at_pt m (x + i) (y + j)))"
  by (simp add: window_total_def interv_sum_list_conv_sum_set_nat atLeast0LessThan)

lemma put_pt_dims [simp]:
  "rows (put_pt m x y v) = rows m" "cols (put_pt m x y v) = cols m"
  by (simp_all add: put_pt_def)

lemma mat_ok_put_pt: "mat_ok m \<Longrightarrow> mat_ok (put_pt m x y v)"
  by (cases "y < length (data m)")
     (auto simp: mat_ok_def put_pt_def list_all_length nth_list_update)

lemma at_pt_put_pt:
  "mat_ok m \<Longrightarrow> x < cols m \<Longrightarrow> y < rows m \<Longrightarrow>
   at_pt (put_pt m x y v) x' y' = (if x' = x \<and> y' = y then v else at_pt m x' y')"
  by (auto simp: mat_ok_def put_pt_def at_pt_def list_all_length nth_list_update)

lemma rect_total_sum:
  "rect_total m x y = (\<Sum>j\<le>y. \<Sum>i\<le>x. px_total (at_pt m i j))"
  by (simp add: rect_total_def window_total_sum lessThan_Suc_atMost)

lemma create_ok [simp]:
  "mat_ok (create r c)" "rows (create r c) = r" "cols (create r c) = c"
  by (simp_all add: create_def mat_ok_def list_all_length)

lemma row_total_Suc: "row_total m y (Suc k) = row_total m y k + px_total (at_pt m k y)"
  by (simp add: row_total_def)

lemma integral_inner:
  assumes "mat_ok sm" "y < rows sm" "k \<le> cols sm"
  shows "\<exists>sm'. fold (integral_px src y) [0..<k] (0, sm) = (word_of_int (row_total src y k), sm')
      \<and> mat_ok sm' \<and> rows sm' = rows sm \<and> cols sm' = cols sm
      \<and> (\<forall>x' y'. at_pt sm' x' y' =
            (if y' = y \<and> x' < k
             then word_of_int (row_total src y (Suc x')) + (if y > 0 then at_pt sm x' (y - 1) else 0)
             else at_pt sm x' y'))"
  using assms(3)
proof (induction k)
  case 0
  then show ?case using assms(1) by (simp add: row_total_def)
next
  case (Suc k)
  then obtain sm' where f: "fold (integral_px src y) [0..<k] (0, sm) = (word_of_int (row_total src y k), sm')"
    and ok: "mat_ok sm'" and r: "rows sm' = rows sm" and c: "cols sm' = cols sm"
    and at: "\<And>x' y'. at_pt sm' x' y' =
            (if y' = y \<and> x' < k
             then word_of_int (row_total src y (Suc x')) + (if y > 0 then at_pt sm x' (y - 1) else 0)
             else at_pt sm x' y')"
    by auto
  let ?s = "word_of_int (row_total src y (Suc k)) :: int32"
  let ?a = "if y > 0 then at_pt sm k (y - 1) else 0"
  have above: "(if y > 0 then at_pt sm' k (y - 1) else 0) = ?a"
    by (simp add: at)
  have step: "fold (integral_px src y) [0..<Suc k] (0, sm) = (?s, put_pt sm' k y (?s + ?a))"
    using above by (simp add: f integral_px_def Let_def chan_sum_eq row_total_Suc)
  have k: "k < cols sm'" "y < rows sm'" using Suc.prems assms(2) r c by simp_all
  have "at_pt (put_pt sm' k y (?s + ?a)) x' y' =
            (if y' = y \<and> x' < Suc k
             then word_of_int (row_total src y (Suc x')) + (if y > 0 then at_pt sm x' (y - 1) else 0)
             else at_pt sm x' y')" for x' y'
    using at_pt_put_pt [OF ok k, of "?s + ?a" x' y'] at [of x' y'] by (auto simp: less_Suc_eq)
  then show ?case
    using step ok r c mat_ok_put_pt [OF ok] by simp
qed

lemma integral_row_spec:
  assumes "mat_ok sm" "y < rows sm" "cols sm = cols src"
  shows "mat_ok (integral_row src y sm) \<and> rows (integral_row src y sm) = rows sm
      \<and> cols (integral_row src y sm) = cols sm
      \<and> (\<forall>x' y'. at_pt (integral_row src y sm) x' y' =
            (if y' = y \<and> x' < cols src
             then word_of_int (row_total src y (Suc x')) + (if y > 0 then at_pt sm x' (y - 1) else 0)
             else at_pt sm x' y'))"
proof -
  have "cols src \<le> cols sm" using assms(3) by simp
  from integral_inner [OF assms(1,2) this, of src]
  show ?thesis unfolding integral_row_def by (elim exE conjE) simp
qed

lemma rect_total_Suc:
  "rect_total m x (Suc y) = rect_total m x y + row_total m (Suc y) (Suc x)"
  by (simp add: rect_total_sum row_total_def lessThan_Suc_atMost)

lemma rect_total_0: "rect_total m x 0 = row_total m 0 (Suc x)"
  by (simp add: rect_total_sum row_total_def lessThan_Suc_atMost)

lemma integral_outer:
  assumes "k \<le> rows src"
  shows "mat_ok (fold (integral_row src) [0..<k] (create (rows src) (cols src)))
     \<and> rows (fold (integral_row src) [0..<k] (create (rows src) (cols src))) = rows src
     \<and> cols (fold (integral_row src) [0..<k] (create (rows src) (cols src))) = cols src
     \<and> (\<forall>y<k. \<forall>x<cols src.
          at_pt (fold (integral_row src) [0..<k] (create (rows src) (cols src))) x y
            = word_of_int (rect_total src x y))"
  using assms
proof (induction k)
  case 0
  then show ?case by simp
next
  case (Suc k)
  let ?sm = "fold (integral_row src) [0..<k] (create (rows src) (cols src))"
  have ok: "mat_ok ?sm" and r: "rows ?sm = rows src" and c: "cols ?sm = cols src"
    and at: "\<And>x y. y < k \<Longrightarrow> x < cols src \<Longrightarrow> at_pt ?sm x y = word_of_int (rect_total src x y)"
    using Suc by simp_all
  have k: "k < rows ?sm" using Suc.prems r by simp
  note spec = integral_row_spec [OF ok k c]
  have "at_pt (integral_row src k ?sm) x y = word_of_int (rect_total src x y)"
    if "y < Suc k" "x < cols src" for x y
  proof (cases "y = k")
    case True
    show ?thesis
    proof (cases k)
      case 0
      then show ?thesis using spec that True by (simp add: rect_total_0)
    next
      case (Suc k')
      then show ?thesis using spec that True at [of k' x] by (simp add: rect_total_Suc)
    qed
  next
    case False
    then show ?thesis using spec that at [of y x] by simp
  qed
  then show ?case using spec r c by simp
qed

lemma integral_dims [simp]:
  "rows (integral src) = rows src" "cols (integral src) = cols src"
  using integral_outer [of "rows src" src] by (simp_all add: integral_def)

lemma mat_ok_integral: "mat_ok (integral src)"
  using integral_outer [of "rows src" src] by (simp add: integral_def)

lemma integral_cell:
  "x < cols src \<Longrightarrow> y < rows src \<Longrightarrow> at_pt (integral src) x y = word_of_int (rect_total src x y)"
  using integral_outer [of "rows src" src] by (simp add: integral_def)

lemma sint_word_of_int_32:
  "- (2 ^ 31) \<le> v \<Longrightarrow> v < 2 ^ 31 \<Longrightarrow> sint (word_of_int v :: int32) = v"
  by (simp add: sint_sbintrunc' signed_take_bit_int_eq_self)

lemma window_total_nonneg: "0 \<le> window_total m x y w h"
  by (simp add: window_total_sum sum_nonneg px_total_bounds)

lemma window_total_le: "window_total m x y w h \<le> 765 * int w * int h"
proof -
  have "(\<Sum>i<w. px_total (at_pt m (x + i) (y + j))) \<le> 765 * int w" for j
    using sum_bounded_above [of "{..<w}" "\<lambda>i. px_total (at_pt m (x + i) (y + j))" 765]
    by (simp add: px_total_bounds mult.commute)
  then have "window_total m x y w h \<le> (\<Sum>j<h. 765 * int w)"
    unfolding window_total_sum by (intro sum_mono)
  then show ?thesis by (simp add: mult.commute)
qed

lemma sum_split_nat:
  fixes g :: "nat \<Rightarrow> int"
  shows "(\<Sum>i<a + b. g i) = (\<Sum>i<a. g i) + (\<Sum>i<b. g (a + i))"
  by (induction b) (simp_all add: add.assoc [symmetric])

lemma rect_total_mono:
  assumes "x \<le> x'" "y \<le> y'"
  shows "rect_total m x y \<le> rect_total m x' y'"
proof -
  let ?f = "\<lambda>i j. px_total (at_pt m i j)"
  have "(\<Sum>j\<le>y. \<Sum>i\<le>x. ?f i j) \<le> (\<Sum>j\<le>y. \<Sum>i\<le>x'. ?f i j)"
    using assms(1) by (intro sum_mono sum_mono2) (auto simp: px_total_bounds)
  also have "\<dots> \<le> (\<Sum>j\<le>y'. \<Sum>i\<le>x'. ?f i j)"
    using assms(2) by (intro sum_mono2) (auto simp: px_total_bounds sum_nonneg)
  finally show ?thesis by (simp add: rect_total_sum)
qed

lemma rect_total_nonneg: "0 \<le> rect_total m x y"
  by (simp add: rect_total_def window_total_nonneg)

text \<open>
  C5 (as amended).  For every image of non-zero width and height whose total channel
  intensity is at most \<open>2\<^sup>3\<^sup>1 - 1\<close>, the integral image has the dimensions of the
  image, every cell \<open>(x, y)\<close> is the exact sum of the channel intensities of the
  pixels of \<open>[0, x] \<times> [0, y]\<close>, and the bottom-right cell is the sum over the whole
  image.
\<close>

theorem integral_exact:
  assumes "mat_ok src" and "0 < rows src" and "0 < cols src"
    and "window_total src 0 0 (cols src) (rows src) < 2 ^ 31"
  shows "mat_ok (integral src) \<and> rows (integral src) = rows src \<and> cols (integral src) = cols src
       \<and> (\<forall>y<rows src. \<forall>x<cols src. sint (at_pt (integral src) x y) = rect_total src x y)
       \<and> sint (at_pt (integral src) (cols src - 1) (rows src - 1))
           = window_total src 0 0 (cols src) (rows src)"
proof -
  have whole: "rect_total src (cols src - 1) (rows src - 1) = window_total src 0 0 (cols src) (rows src)"
    using assms(2,3) by (simp add: rect_total_def)
  have cell: "sint (at_pt (integral src) x y) = rect_total src x y"
    if "y < rows src" "x < cols src" for x y
  proof -
    have "rect_total src x y \<le> rect_total src (cols src - 1) (rows src - 1)"
      using that by (intro rect_total_mono) simp_all
    then have "rect_total src x y < 2 ^ 31" using assms(4) whole by simp
    moreover have "- (2 ^ 31) \<le> rect_total src x y"
      using rect_total_nonneg [of src x y] by simp
    ultimately show ?thesis
      using that by (simp add: integral_cell sint_word_of_int_32)
  qed
  show ?thesis
    using cell [of "rows src - 1" "cols src - 1"] cell assms(2,3) whole
    by (simp add: mat_ok_integral)
qed

theorem integral_exact_witness:
  "mat_ok hay_c \<and> 0 < rows hay_c \<and> 0 < cols hay_c
   \<and> window_total hay_c 0 0 (cols hay_c) (rows hay_c) < 2 ^ 31
   \<and> sint (at_pt (integral hay_c) (cols hay_c - 1) (rows hay_c - 1))
        = window_total hay_c 0 0 (cols hay_c) (rows hay_c)
   \<and> window_total hay_c 0 0 (cols hay_c) (rows hay_c) = 45"
proof -
  have h: "mat_ok hay_c" "0 < rows hay_c" "0 < cols hay_c"
          "window_total hay_c 0 0 (cols hay_c) (rows hay_c) < 2 ^ 31"
    by code_simp+
  have v: "window_total hay_c 0 0 (cols hay_c) (rows hay_c) = 45" by code_simp
  from integral_exact [OF h] h v show ?thesis by blast
qed

text \<open>
  The claim as stated fails for the white image of 1676 by 1676 pixels: no \<open>int\<close>
  holds the sum of its channel intensities.
\<close>

lemma at_pt_big_white: "i < 1676 \<Longrightarrow> j < 1676 \<Longrightarrow> at_pt big_white i j = white"
  by (simp add: at_pt_def big_white_def)

lemma px_total_white: "px_total white = 765"
  by (simp add: px_total_def white_def)

lemma rect_total_big_white: "rect_total big_white 1675 1675 = 2148866640"
proof -
  have "rect_total big_white 1675 1675 = (\<Sum>j<1676. \<Sum>i<1676. px_total (at_pt big_white i j))"
    by (simp add: rect_total_def window_total_sum)
  also have "\<dots> = (\<Sum>j<(1676::nat). \<Sum>i<(1676::nat). 765)"
    by (intro sum.cong refl) (simp add: at_pt_big_white px_total_white)
  also have "\<dots> = 2148866640" by simp
  finally show ?thesis .
qed

theorem integral_overflow_counterexample:
  "mat_ok big_white \<and> 0 < rows big_white \<and> 0 < cols big_white
   \<and> sint (at_pt (integral big_white) 1675 1675) \<noteq> rect_total big_white 1675 1675"
proof -
  have "sint (at_pt (integral big_white) 1675 1675) < 2 ^ 31"
    using sint_lt [of "at_pt (integral big_white) 1675 1675"] by simp
  then have "sint (at_pt (integral big_white) 1675 1675) \<noteq> rect_total big_white 1675 1675"
    by (simp add: rect_total_big_white)
  moreover have "mat_ok big_white"
    by (simp add: mat_ok_def big_white_def list_all_length)
  ultimately show ?thesis by (simp add: big_white_def)
qed

section \<open>The window sum\<close>

lemma at_rc_pt: "at_rc m i j = at_pt m j i"
  by (simp add: at_rc_def at_pt_def)

lemma rect_total_window:
  "rect_total m x y + rect_total m (x + w) (y + h) - rect_total m (x + w) y - rect_total m x (y + h)
     = window_total m (Suc x) (Suc y) w h"
proof -
  let ?f = "\<lambda>i j. px_total (at_pt m i j)"
  have r: "rect_total m a b = (\<Sum>j<Suc b. \<Sum>i<Suc a. ?f i j)" for a b
    by (simp add: rect_total_def window_total_sum)
  have sx: "Suc (x + w) = Suc x + w" and sy: "Suc (y + h) = Suc y + h" by simp_all
  show ?thesis
    unfolding r sx sy sum_split_nat window_total_sum
    by (simp add: sum.distrib)
qed

lemma window_sum_shifted:
  assumes "x + ncols < cols src" "y + nrows < rows src"
  shows "window_sum (integral src) nrows ncols y x
           = word_of_int (window_total src (Suc x) (Suc y) ncols nrows)"
proof -
  have "window_sum (integral src) nrows ncols y x
      = word_of_int (rect_total src x y + rect_total src (x + ncols) (y + nrows)
                      - rect_total src (x + ncols) y - rect_total src x (y + nrows))"
    using assms by (simp add: window_sum_def at_rc_pt integral_cell)
  then show ?thesis by (simp only: rect_total_window)
qed

text \<open>
  C1.  The claim is that the window sum of the four lookups at \<open>(x, y)\<close> is the sum
  over the pixels of \<open>[x, x + nw) \<times> [y, y + nh)\<close>.  By \<open>window_sum_shifted\<close> the
  lookups give the sum over the window one pixel further right and down.  On the
  3 by 3 haystack whose first channels are 1 to 9 and a needle of 2 by 2 pixels, the
  four lookups at \<open>(0, 0)\<close> give 28, the sum of the window at \<open>(1, 1)\<close>; the
  window at \<open>(0, 0)\<close> sums to 12.
\<close>

theorem window_sum_off_by_one:
  "window_sum (integral hay_c) 2 2 0 0 = 28 \<and> window_total hay_c 0 0 2 2 = 12
   \<and> window_total hay_c 1 1 2 2 = 28"
  by code_simp

section \<open>The candidate list\<close>

lemma nat_int_diff [simp]: "nat (int a - int b) = a - b"
  by simp

lemma upt_split: "k < n \<Longrightarrow> [0..<n] = [0..<k] @ k # [Suc k..<n]"
  using upt_add_eq_append [of 0 k "n - k"] by (simp add: upt_conv_Cons)

lemma fold_concat_eq: "fold f (concat xss) = fold (fold f) xss"
  by (induction xss) simp_all

lemma scan_eq_fold: "scan hs nrows ncols ns = fold deq_add (scan_items hs nrows ncols ns) []"
proof -
  have "scan_row hs nrows ncols ns = (\<lambda>y. fold deq_add (map (candidate hs nrows ncols ns y) [0..<nat (int (cols hs) - int ncols)]))"
    by (rule ext)+ (simp add: scan_row_def fold_map comp_def scan_px_def [abs_def])
  then show ?thesis
    by (simp add: scan_def scan_items_def fold_concat_eq fold_map comp_def)
qed

lemma length_insert_before: "length (insert_before itm deq) \<le> Suc (length deq)"
  by (induction deq) auto

lemma set_insert_before: "set (insert_before itm deq) \<subseteq> insert itm (set deq)"
  by (induction deq) auto

lemma sorted_insert_before: "sorted_wrt (\<lambda>a b. item_diff a \<le>s item_diff b) deq \<Longrightarrow> sorted_wrt (\<lambda>a b. item_diff a \<le>s item_diff b) (insert_before itm deq)"
proof (induction deq)
  case Nil then show ?case by simp
next
  case (Cons c cs)
  then show ?case
    using set_insert_before [of itm cs]
    by (auto simp: word_sless_alt word_sle_eq)
qed

lemma sorted_butlast: "sorted_wrt R xs \<Longrightarrow> sorted_wrt R (butlast xs)"
  by (induction xs) (auto dest: in_set_butlastD)

lemma filter_insert_before:
  "sorted_wrt (\<lambda>a b. item_diff a \<le>s item_diff b) deq \<Longrightarrow>
   filter (\<lambda>c. item_diff c = v) (insert_before itm deq) =
     (if v = item_diff itm \<and> (\<exists>c\<in>set deq. item_diff itm <s item_diff c)
      then filter (\<lambda>c. item_diff c = v) deq @ [itm]
      else filter (\<lambda>c. item_diff c = v) deq)"
proof (induction deq)
  case Nil then show ?case by simp
next
  case (Cons c cs)
  show ?case
  proof (cases "item_diff itm <s item_diff c")
    case True
    have "\<forall>c'\<in>set (c # cs). item_diff c' \<noteq> item_diff itm"
      using Cons.prems True by (auto simp: word_sless_alt word_sle_eq)
    then have "filter (\<lambda>c. item_diff c = item_diff itm) (c # cs) = []"
      by (simp add: filter_empty_conv)
    with True show ?thesis by auto
  next
    case False
    with Cons show ?thesis by auto
  qed
qed

lemma length_deq_add: "length deq \<le> 50 \<Longrightarrow> length (deq_add itm deq) \<le> 50"
  using length_insert_before [of itm deq]
  by (auto simp: deq_add_def Let_def)

lemma set_deq_add: "set (deq_add itm deq) \<subseteq> insert itm (set deq)"
  using set_insert_before [of itm deq]
  by (auto simp: deq_add_def Let_def dest: in_set_butlastD)

lemma sorted_deq_add: "sorted_wrt (\<lambda>a b. item_diff a \<le>s item_diff b) deq \<Longrightarrow> sorted_wrt (\<lambda>a b. item_diff a \<le>s item_diff b) (deq_add itm deq)"
  by (auto simp: deq_add_def Let_def intro: sorted_butlast sorted_insert_before)

lemma subseq_butlast: "subseq (butlast xs) xs"
  by (rule prefix_imp_subseq) (rule prefixeq_butlast)

lemma stable_deq_add:
  assumes "sorted_wrt (\<lambda>a b. item_diff a \<le>s item_diff b) deq"
    and "subseq (filter (\<lambda>c. item_diff c = v) deq) (filter (\<lambda>c. item_diff c = v) its)"
  shows "subseq (filter (\<lambda>c. item_diff c = v) (deq_add itm deq))
                (filter (\<lambda>c. item_diff c = v) (its @ [itm]))"
proof -
  let ?P = "\<lambda>c. item_diff c = v"
  define deq1 where "deq1 = (if length deq > 0 then insert_before itm deq else itm # deq)"
  define R where "R = filter ?P (its @ [itm])"
  have one: "subseq (filter ?P deq1) R"
  proof (cases "deq = []")
    case True
    then show ?thesis by (simp add: deq1_def R_def subseq_drop_many)
  next
    case False
    then show ?thesis
      using assms(2)
      by (auto simp: deq1_def R_def filter_insert_before [OF assms(1)] subseq_rev_drop_many)
  qed
  have "subseq (filter ?P (butlast deq1)) (filter ?P deq1)"
    by (rule subseq_filter) (rule subseq_butlast)
  with one have two: "subseq (filter ?P (butlast deq1)) R"
    by (rule subseq_order.trans [rotated])
  have "deq_add itm deq = (if length deq1 > 50 then butlast deq1 else deq1)"
    by (simp add: deq_add_def deq1_def Let_def)
  then show ?thesis
    using one two unfolding R_def [symmetric] by (cases "50 < length deq1") simp_all
qed

lemma fold_deq_add_inv:
  "length (fold deq_add its []) \<le> 50 \<and> sorted_wrt (\<lambda>a b. item_diff a \<le>s item_diff b) (fold deq_add its [])
   \<and> set (fold deq_add its []) \<subseteq> set its
   \<and> (\<forall>v. subseq (filter (\<lambda>c. item_diff c = v) (fold deq_add its []))
                  (filter (\<lambda>c. item_diff c = v) its))"
proof (induction its rule: rev_induct)
  case Nil
  then show ?case by simp
next
  case (snoc itm its)
  let ?deq = "fold deq_add its []"
  have "set (deq_add itm ?deq) \<subseteq> set (its @ [itm])"
    using set_deq_add [of itm ?deq] snoc by auto
  then show ?case
    using snoc by (simp add: length_deq_add sorted_deq_add stable_deq_add del: filter_append)
qed

lemma fold_deq_add_prefix_subset:
  "prefix p its \<Longrightarrow> set (fold deq_add p []) \<subseteq> set its"
  using fold_deq_add_inv [of p] set_mono_prefix [of p its] by blast

text \<open>
  The list held when the scan has handled the rows before \<open>y0\<close> and the columns
  before \<open>x0\<close> of row \<open>y0\<close> is the one that \<open>deq_add\<close> builds from an initial
  part of the scan order.
\<close>

lemma upt_split_le: "k \<le> n \<Longrightarrow> [0..<n] = [0..<k] @ [k..<n]"
  using upt_add_eq_append [of 0 k "n - k"] by simp

lemma scan_state_prefix:
  fixes hs nrows ncols ns y0 x0
  assumes "y0 < rows hs - nrows" "x0 \<le> cols hs - ncols"
  defines "its \<equiv> concat (map (\<lambda>y. map (candidate hs nrows ncols ns y) [0..<cols hs - ncols]) [0..<y0])
                   @ map (candidate hs nrows ncols ns y0) [0..<x0]"
  shows "fold (scan_px hs nrows ncols ns y0) [0..<x0] (fold (scan_row hs nrows ncols ns) [0..<y0] [])
           = fold deq_add its []"
    and "prefix its (scan_items hs nrows ncols ns)"
proof -
  have row: "scan_row hs nrows ncols ns
      = (\<lambda>y. fold deq_add (map (candidate hs nrows ncols ns y) [0..<cols hs - ncols]))"
    by (rule ext)+ (simp add: scan_row_def fold_map comp_def scan_px_def [abs_def])
  have px: "scan_px hs nrows ncols ns y0 = (\<lambda>x. deq_add (candidate hs nrows ncols ns y0 x))"
    by (rule ext)+ (simp add: scan_px_def)
  show "fold (scan_px hs nrows ncols ns y0) [0..<x0] (fold (scan_row hs nrows ncols ns) [0..<y0] [])
           = fold deq_add its []"
    by (simp add: its_def row px fold_concat_eq fold_map comp_def)
  have "[0..<cols hs - ncols] = [0..<x0] @ [x0..<cols hs - ncols]"
    using assms(2) by (rule upt_split_le)
  then have r: "map (candidate hs nrows ncols ns y0) [0..<cols hs - ncols]
      = map (candidate hs nrows ncols ns y0) [0..<x0] @ map (candidate hs nrows ncols ns y0) [x0..<cols hs - ncols]"
    by (metis map_append)
  have "scan_items hs nrows ncols ns = its @ map (candidate hs nrows ncols ns y0) [x0..<cols hs - ncols]
      @ concat (map (\<lambda>y. map (candidate hs nrows ncols ns y) [0..<cols hs - ncols]) [Suc y0..<rows hs - nrows])"
    unfolding scan_items_def nat_int_diff its_def
    by (subst upt_split [OF assms(1)]) (simp add: r)
  then show "prefix its (scan_items hs nrows ncols ns)"
    by (metis prefixI)
qed

text \<open>
  C6.  At every point of the scan, that is after the candidates \<open>its\<close> of any initial
  part of the scan order have been handled, the candidate list holds at most 50
  candidates and is sorted ascending by diff, and for every diff value the
  candidates of that diff in the list stand in the order in which the scan found
  them.  After the whole scan the list is the one \<open>scan\<close> returns.
\<close>

theorem candidate_list_invariant:
  fixes hs nrows ncols ns its
  defines "deq \<equiv> fold deq_add its []"
  assumes "prefix its (scan_items hs nrows ncols ns)"
  shows "length deq \<le> 50
       \<and> sorted_wrt (\<lambda>a b. item_diff a \<le>s item_diff b) deq
       \<and> (\<forall>v. subseq (filter (\<lambda>c. item_diff c = v) deq) (filter (\<lambda>c. item_diff c = v) its))
       \<and> (its = scan_items hs nrows ncols ns \<longrightarrow> scan hs nrows ncols ns = deq)"
  using fold_deq_add_inv [of its] by (simp add: deq_def scan_eq_fold)

theorem candidate_list_invariant_witness:
  "prefix [\<lparr>item_diff = 9, item_x = 0, item_y = 0, item_sum = 9\<rparr>,
           \<lparr>item_diff = 6, item_x = 1, item_y = 0, item_sum = 6\<rparr>]
          (scan_items (integral hay_b) 1 1 0)
   \<and> length (fold deq_add [\<lparr>item_diff = 9, item_x = 0, item_y = 0, item_sum = 9\<rparr>,
                            \<lparr>item_diff = 6, item_x = 1, item_y = 0, item_sum = 6\<rparr>] []) \<le> 50
   \<and> sorted_wrt (\<lambda>a b. item_diff a \<le>s item_diff b)
        (fold deq_add [\<lparr>item_diff = 9, item_x = 0, item_y = 0, item_sum = 9\<rparr>,
                       \<lparr>item_diff = 6, item_x = 1, item_y = 0, item_sum = 6\<rparr>] [])
   \<and> (\<forall>v. subseq
          (filter (\<lambda>c. item_diff c = v)
             (fold deq_add [\<lparr>item_diff = 9, item_x = 0, item_y = 0, item_sum = 9\<rparr>,
                            \<lparr>item_diff = 6, item_x = 1, item_y = 0, item_sum = 6\<rparr>] []))
          (filter (\<lambda>c. item_diff c = v)
             [\<lparr>item_diff = 9, item_x = 0, item_y = 0, item_sum = 9\<rparr>,
              \<lparr>item_diff = 6, item_x = 1, item_y = 0, item_sum = 6\<rparr>]))"
proof -
  have p: "prefix [\<lparr>item_diff = 9, item_x = 0, item_y = 0, item_sum = 9\<rparr>,
                   \<lparr>item_diff = 6, item_x = 1, item_y = 0, item_sum = 6\<rparr>]
                  (scan_items (integral hay_b) 1 1 0)"
    by code_simp
  from candidate_list_invariant [OF p] p show ?thesis by blast
qed

lemma insert_before_none:
  "\<forall>c\<in>set deq. \<not> item_diff itm <s item_diff c \<Longrightarrow> insert_before itm deq = deq"
  by (induction deq) auto

lemma candidates_hay_a:
  "candidates hay_a ndl_a = [\<lparr>item_diff = 0, item_x = 0, item_y = 0, item_sum = 1\<rparr>]"
  by code_simp

lemma scan_items_hay_a:
  "scan_items (integral hay_a) (rows ndl_a) (cols ndl_a)
      (at_rc (integral ndl_a) (rows ndl_a - 1) (cols ndl_a - 1))
    = [\<lparr>item_diff = 0, item_x = 0, item_y = 0, item_sum = 1\<rparr>,
       \<lparr>item_diff = 1, item_x = 1, item_y = 0, item_sum = 0\<rparr>,
       \<lparr>item_diff = 1, item_x = 0, item_y = 1, item_sum = 0\<rparr>,
       \<lparr>item_diff = 1, item_x = 1, item_y = 1, item_sum = 0\<rparr>]"
  by code_simp

text \<open>
  C9.  When the list is not empty and no element has a greater diff than the new
  candidate, the step of the scan leaves the list as it is, whatever its length up
  to 50.  Hence the final list can lack a scanned candidate although it holds fewer
  than 50.
\<close>

theorem candidate_not_inserted:
  "(\<forall>hs nrows ncols ns y x deq.
       deq \<noteq> [] \<and> length deq \<le> 50
       \<and> (\<forall>c\<in>set deq. item_diff c \<le>s item_diff (candidate hs nrows ncols ns y x))
       \<longrightarrow> scan_px hs nrows ncols ns y x deq = deq)
   \<and> (\<exists>haystack needle c.
         mat_ok haystack \<and> mat_ok needle
         \<and> c \<in> set (scan_items (integral haystack) (rows needle) (cols needle)
                        (at_rc (integral needle) (rows needle - 1) (cols needle - 1)))
         \<and> c \<notin> set (candidates haystack needle)
         \<and> length (candidates haystack needle) < 50)"
proof (intro conjI allI impI)
  fix hs nrows ncols ns y x and deq :: "item list"
  assume a: "deq \<noteq> [] \<and> length deq \<le> 50
       \<and> (\<forall>c\<in>set deq. item_diff c \<le>s item_diff (candidate hs nrows ncols ns y x))"
  then have "\<forall>c\<in>set deq. \<not> item_diff (candidate hs nrows ncols ns y x) <s item_diff c"
    by (auto simp: word_sless_alt word_sle_eq)
  then have "insert_before (candidate hs nrows ncols ns y x) deq = deq"
    by (rule insert_before_none)
  then show "scan_px hs nrows ncols ns y x deq = deq"
    using a by (simp add: scan_px_def deq_add_def Let_def)
next
  let ?c = "\<lparr>item_diff = 1, item_x = 1, item_y = 0, item_sum = 0\<rparr>"
  have "mat_ok hay_a" "mat_ok ndl_a" by code_simp+
  moreover have "?c \<in> set (scan_items (integral hay_a) (rows ndl_a) (cols ndl_a)
                        (at_rc (integral ndl_a) (rows ndl_a - 1) (cols ndl_a - 1)))"
    unfolding scan_items_hay_a by simp
  moreover have "?c \<notin> set (candidates hay_a ndl_a)" "length (candidates hay_a ndl_a) < 50"
    unfolding candidates_hay_a by simp_all
  ultimately show "\<exists>haystack needle c.
         mat_ok haystack \<and> mat_ok needle
         \<and> c \<in> set (scan_items (integral haystack) (rows needle) (cols needle)
                        (at_rc (integral needle) (rows needle - 1) (cols needle - 1)))
         \<and> c \<notin> set (candidates haystack needle)
         \<and> length (candidates haystack needle) < 50"
    by blast
qed

theorem candidate_not_inserted_witness:
  "[\<lparr>item_diff = 0, item_x = 0, item_y = 0, item_sum = 1\<rparr>] \<noteq> []
   \<and> length [\<lparr>item_diff = 0, item_x = 0, item_y = 0, item_sum = 1\<rparr>] \<le> 50
   \<and> item_diff \<lparr>item_diff = 0, item_x = 0, item_y = 0, item_sum = 1\<rparr>
        \<le>s item_diff (candidate (integral hay_a) 1 1 1 0 1)
   \<and> scan_px (integral hay_a) 1 1 1 0 1 [\<lparr>item_diff = 0, item_x = 0, item_y = 0, item_sum = 1\<rparr>]
        = [\<lparr>item_diff = 0, item_x = 0, item_y = 0, item_sum = 1\<rparr>]"
proof -
  let ?c = "\<lparr>item_diff = 0, item_x = 0, item_y = 0, item_sum = 1\<rparr>"
  have h: "item_diff ?c \<le>s item_diff (candidate (integral hay_a) 1 1 1 0 1)"
    by code_simp
  then have "[?c] \<noteq> [] \<and> length [?c] \<le> 50
       \<and> (\<forall>c\<in>set [?c]. item_diff c \<le>s item_diff (candidate (integral hay_a) 1 1 1 0 1))"
    by simp
  with candidate_not_inserted
  have "scan_px (integral hay_a) 1 1 1 0 1 [?c] = [?c]" by blast
  with h show ?thesis by simp
qed

text \<open>
  C4.  The claim is that every scored candidate is inserted and that a candidate is
  dropped only when the list exceeds 50.  On the uniform gray haystack the scan
  scores two candidates, both of diff 0; the second is never inserted, and the
  final list holds one candidate.
\<close>

theorem equal_diff_candidate_dropped:
  "scan_items (integral hay_u) (rows ndl_u) (cols ndl_u)
       (at_rc (integral ndl_u) (rows ndl_u - 1) (cols ndl_u - 1))
     = [\<lparr>item_diff = 0, item_x = 0, item_y = 0, item_sum = 384\<rparr>,
        \<lparr>item_diff = 0, item_x = 1, item_y = 0, item_sum = 384\<rparr>]
   \<and> candidates hay_u ndl_u = [\<lparr>item_diff = 0, item_x = 0, item_y = 0, item_sum = 384\<rparr>]"
  by code_simp

section \<open>The scanned positions\<close>

lemma scan_items_D:
  "c \<in> set (scan_items hs nrows ncols ns) \<Longrightarrow>
     \<exists>y x. y < rows hs - nrows \<and> x < cols hs - ncols \<and> c = candidate hs nrows ncols ns y x"
  by (clarsimp simp: scan_items_def) blast

lemma candidate_sel [simp]:
  "item_x (candidate hs nrows ncols ns y x) = x"
  "item_y (candidate hs nrows ncols ns y x) = y"
  "item_sum (candidate hs nrows ncols ns y x) = window_sum hs nrows ncols y x"
  "item_diff (candidate hs nrows ncols ns y x) = c_abs (window_sum hs nrows ncols y x - ns)"
  by (simp_all add: candidate_def Let_def)

lemma needle_total_cell:
  assumes "0 < rows needle" "0 < cols needle"
  shows "at_rc (integral needle) (rows (integral needle) - 1) (cols (integral needle) - 1)
           = word_of_int (window_total needle 0 0 (cols needle) (rows needle))"
  using assms by (simp add: at_rc_pt integral_cell rect_total_def)

text \<open>
  C2.  The claim is that a needle copied into the haystack at \<open>(x0, y0)\<close> is found
  there with confidence 1.  The needle \<open>ndl_a\<close> stands in \<open>hay_a\<close> at \<open>(1, 1)\<close>,
  a scanned position, and not at \<open>(0, 0)\<close>; the program reports confidence 1 at
  \<open>(0, 0)\<close>, because the window sum scored for \<open>(0, 0)\<close> is that of the window at
  \<open>(1, 1)\<close> (see C1).
\<close>

theorem perfect_match_misplaced:
  "mat_ok hay_a \<and> mat_ok ndl_a \<and> copied_at hay_a ndl_a 1 1 \<and> \<not> copied_at hay_a ndl_a 0 0
   \<and> tpl_main hay_a ndl_a = Inr \<lparr>result = 1, min_sad = 2147483647, rx = 0, ry = 0\<rparr>"
  by code_simp

section \<open>The refinement\<close>

lemma px_absdiff_bounds: "0 \<le> px_absdiff c1 c2" "px_absdiff c1 c2 \<le> 765"
proof -
  have b: "0 \<le> uint w \<and> uint w < 256" for w :: uchar
    using uint_bounded [of w] by simp
  have d: "\<bar>uint v - uint w\<bar> \<le> 255" for v w :: uchar
    using b [of v] b [of w] by linarith
  show "0 \<le> px_absdiff c1 c2" by (simp add: px_absdiff_def)
  show "px_absdiff c1 c2 \<le> 765"
    using d [of "val0 c1" "val0 c2"] d [of "val1 c1" "val1 c2"] d [of "val2 c1" "val2 c2"]
    by (simp add: px_absdiff_def)
qed

lemma sad_total_sum:
  "sad_total haystack needle x y =
     (\<Sum>j<rows needle. \<Sum>i<cols needle. px_absdiff (at_pt haystack (x + i) (y + j)) (at_pt needle i j))"
  by (simp add: sad_total_def interv_sum_list_conv_sum_set_nat atLeast0LessThan)

lemma sad_total_nonneg: "0 \<le> sad_total haystack needle x y"
  by (simp add: sad_total_sum sum_nonneg px_absdiff_bounds)

lemma sad_total_le: "sad_total haystack needle x y \<le> 765 * int (cols needle) * int (rows needle)"
proof -
  have "(\<Sum>i<cols needle. px_absdiff (at_pt haystack (x + i) (y + j)) (at_pt needle i j))
          \<le> 765 * int (cols needle)" for j
    using sum_bounded_above [of "{..<cols needle}"
        "\<lambda>i. px_absdiff (at_pt haystack (x + i) (y + j)) (at_pt needle i j)" 765]
    by (simp add: px_absdiff_bounds mult.commute)
  then have "sad_total haystack needle x y \<le> (\<Sum>j<rows needle. 765 * int (cols needle))"
    unfolding sad_total_sum by (intro sum_mono)
  then show ?thesis by (simp add: mult.commute)
qed

lemma sad_px_eq:
  "sad_px haystack needle c j i s
     = s + word_of_int (px_absdiff (at_pt haystack (item_x c + i) (item_y c + j)) (at_pt needle i j))"
  by (simp add: sad_px_def Let_def absdiff_def px_absdiff_def add.assoc)

lemma fold_add_word:
  fixes s0 :: "'a::len word"
  shows "fold (\<lambda>i s. s + word_of_int (g i)) [0..<k] s0 = s0 + word_of_int (\<Sum>i<k. g i)"
  by (induction k) (simp_all add: add.assoc)

lemma sad_eq: "sad haystack needle c = word_of_int (sad_total haystack needle (item_x c) (item_y c))"
proof -
  have inner: "fold (sad_px haystack needle c j) [0..<cols needle] s
      = s + word_of_int (\<Sum>i<cols needle.
              px_absdiff (at_pt haystack (item_x c + i) (item_y c + j)) (at_pt needle i j))" for j s
    using fold_add_word [of "\<lambda>i. px_absdiff (at_pt haystack (item_x c + i) (item_y c + j)) (at_pt needle i j)"
                            "cols needle" s]
    by (simp add: sad_px_eq [abs_def])
  show ?thesis
    unfolding sad_def inner sad_total_sum
    using fold_add_word [of "\<lambda>j. \<Sum>i<cols needle.
              px_absdiff (at_pt haystack (item_x c + i) (item_y c + j)) (at_pt needle i j)"
              "rows needle" "0 :: uint64"]
    by simp
qed

lemma max_sad_eq:
  "max_sad needle = word_of_int (765 * int (cols needle) * int (rows needle))"
  by (simp add: max_sad_def mult.commute mult.left_commute)

lemma sint_max_sad:
  assumes "765 * int (cols needle) * int (rows needle) < 2 ^ 31"
  shows "sint (max_sad needle) = 765 * int (cols needle) * int (rows needle)"
proof -
  have "- (2 ^ 31) \<le> 765 * int (cols needle) * int (rows needle)"
    by (rule order_trans [of _ 0]) simp_all
  then show ?thesis
    unfolding max_sad_eq using assms by (intro sint_word_of_int_32)
qed

lemma unit_ratio:
  fixes t m :: int
  assumes "0 \<le> t" "t \<le> m" "0 < m"
  shows "0 \<le> 1 - real_of_int t / real_of_int m" "1 - real_of_int t / real_of_int m \<le> 1"
  using assms by (simp_all add: divide_le_eq_1)

lemma sad_small:
  assumes "765 * int (cols needle) * int (rows needle) < 2 ^ 31"
  shows "uint (sad haystack needle c) = sad_total haystack needle (item_x c) (item_y c)"
    and "sint (ucast (sad haystack needle c) :: int32) = sad_total haystack needle (item_x c) (item_y c)"
proof -
  let ?T = "sad_total haystack needle (item_x c) (item_y c)"
  have t: "0 \<le> ?T" "?T < 2 ^ 31"
    using sad_total_nonneg [of haystack needle] sad_total_le [of haystack needle "item_x c" "item_y c"] assms
    by simp_all
  then have "?T < 2 ^ 64" by simp
  then show "uint (sad haystack needle c) = ?T"
    using t(1) by (simp add: sad_eq uint_word_of_int take_bit_int_eq_self)
  have "(ucast (word_of_int ?T :: uint64) :: int32) = word_of_int ?T"
    by (simp add: ucast_down_wi is_down)
  then show "sint (ucast (sad haystack needle c) :: int32) = ?T"
    using t by (simp add: sad_eq sint_word_of_int_32)
qed

lemma brute_force_result_range:
  assumes "0 < rows needle" "0 < cols needle"
    and "765 * int (cols needle) * int (rows needle) < 2 ^ 31"
    and "0 \<le> result st" "result st \<le> 1"
  shows "0 \<le> result (brute_force haystack needle (max_sad needle) deq st)
       \<and> result (brute_force haystack needle (max_sad needle) deq st) \<le> 1"
  using assms(4,5)
proof (induction deq arbitrary: st)
  case Nil
  then show ?case by simp
next
  case (Cons c cs)
  let ?T = "sad_total haystack needle (item_x c) (item_y c)"
  let ?M = "765 * int (cols needle) * int (rows needle)"
  have M: "0 < ?M" using assms(1,2) by simp
  have T: "0 \<le> ?T" "?T \<le> ?M" by (rule sad_total_nonneg sad_total_le)+
  let ?r = "1 - real_of_int ?T / real_of_int ?M"
  have r: "0 \<le> ?r" "?r \<le> 1"
    by (rule unit_ratio [OF T M])+
  define s where "s = sad haystack needle c"
  define st' where "st' = (if s < scast (min_sad st)
              then let mn = (ucast s :: int32)
                   in \<lparr>result = 1 - real_of_int (sint mn) / real_of_int (sint (max_sad needle)),
                       min_sad = mn, rx = int (item_x c), ry = int (item_y c)\<rparr>
              else st)"
  have step: "brute_force haystack needle (max_sad needle) (c # cs) st
      = (if s = 0 then st' else brute_force haystack needle (max_sad needle) cs st')"
    by (simp only: brute_force.simps Let_def s_def st'_def)
  have st': "0 \<le> result st'" "result st' \<le> 1"
  proof -
    have "result st' = ?r" if "s < scast (min_sad st)"
    proof -
      have "result st' = 1 - real_of_int (sint (ucast s :: int32)) / real_of_int (sint (max_sad needle))"
        using that by (simp add: st'_def Let_def)
      also have "\<dots> = ?r"
        by (simp only: s_def sad_small(2) [OF assms(3)] sint_max_sad [OF assms(3)])
      finally show ?thesis .
    qed
    moreover have "result st' = result st" if "\<not> s < scast (min_sad st)"
      using that by (simp add: st'_def)
    ultimately show "0 \<le> result st'" "result st' \<le> 1"
      using r Cons.prems by (cases "s < scast (min_sad st)"; simp)+
  qed
  show ?case
    unfolding step using st' Cons.IH [OF st'] by simp
qed

text \<open>
  C8 (as amended).  For images of non-zero area and a needle with
  \<open>765 * width * height < 2\<^sup>3\<^sup>1\<close>, the program ends with a confidence between 0 and
  1, and the sum of absolute differences of any window is at most \<open>max\<close>.
\<close>

theorem confidence_in_unit_interval:
  assumes "\<not> empty_mat haystack" and "\<not> empty_mat needle"
    and "765 * int (cols needle) * int (rows needle) < 2 ^ 31"
  shows "(\<exists>st. tpl_main haystack needle = Inr st \<and> 0 \<le> result st \<and> result st \<le> 1)
       \<and> (\<forall>c. uint (sad haystack needle c) \<le> sint (max_sad needle))"
proof -
  have n: "0 < rows needle" "0 < cols needle"
    using assms(2) by (simp_all add: empty_mat_def)
  let ?deq = "candidates haystack needle"
  have i: "0 \<le> result (init_state ?deq)" "result (init_state ?deq) \<le> 1"
    by (simp_all add: init_state_def Let_def)
  have "uint (sad haystack needle c) \<le> sint (max_sad needle)" for c
    using sad_total_le [of haystack needle "item_x c" "item_y c"]
    by (simp add: sad_small [OF assms(3)] sint_max_sad [OF assms(3)])
  then show ?thesis
    using assms(1,2) i brute_force_result_range [OF n assms(3) i, of haystack ?deq]
    by (simp add: tpl_main_def Let_def)
qed

theorem confidence_in_unit_interval_witness:
  "\<not> empty_mat hay_b \<and> \<not> empty_mat ndl_g1
   \<and> 765 * int (cols ndl_g1) * int (rows ndl_g1) < 2 ^ 31
   \<and> tpl_main hay_b ndl_g1 = Inr \<lparr>result = 254 / 255, min_sad = 3, rx = 1, ry = 0\<rparr>
   \<and> (\<exists>st. tpl_main hay_b ndl_g1 = Inr st \<and> 0 \<le> result st \<and> result st \<le> 1)"
proof -
  have h: "\<not> empty_mat hay_b" "\<not> empty_mat ndl_g1"
      "765 * int (cols ndl_g1) * int (rows ndl_g1) < 2 ^ 31"
    by code_simp+
  have v: "tpl_main hay_b ndl_g1 = Inr \<lparr>result = 254 / 255, min_sad = 3, rx = 1, ry = 0\<rparr>"
    by code_simp
  from confidence_in_unit_interval [OF h] h v show ?thesis by blast
qed

text \<open>
  The claim as stated fails for the needle of 1676 by 1676 pixels: the product
  \<open>rows * cols * 255 * 3\<close> does not fit \<open>int\<close>, \<open>max\<close> is negative and the
  confidence is greater than 1.
\<close>

lemma big_dims [simp]:
  "rows big_hay = 1677" "cols big_hay = 1677" "rows big_ndl = 1676" "cols big_ndl = 1676"
  by (simp_all add: big_hay_def big_ndl_def)

lemma at_pt_big_hay: "i < 1677 \<Longrightarrow> j < 1677 \<Longrightarrow> at_pt big_hay i j = black"
  by (simp add: at_pt_def big_hay_def)

lemma at_pt_big_ndl:
  "i < 1676 \<Longrightarrow> j < 1676 \<Longrightarrow> at_pt big_ndl i j = (if i = 0 \<and> j = 0 then white else black)"
  by (simp add: at_pt_def big_ndl_def nth_list_update)

lemma px_total_black: "px_total black = 0"
  by (simp add: px_total_def black_def)

lemma sum_single:
  fixes a :: int and n m :: nat
  shows "(\<Sum>j<n. \<Sum>i<m. if i = 0 \<and> j = 0 then a else 0) = (if 0 < n \<and> 0 < m then a else 0)"
proof -
  have "(\<Sum>i<m. if i = 0 \<and> j = 0 then a else 0) = (if j = 0 then (if 0 < m then a else 0) else 0)" for j :: nat
    using sum.delta [of "{..<m}" 0 "\<lambda>_. a"] by (cases "j = 0") simp_all
  then show ?thesis
    using sum.delta [of "{..<n}" 0 "\<lambda>_. if 0 < m then a else 0"] by simp
qed

lemma window_total_big_ndl: "window_total big_ndl 0 0 1676 1676 = 765"
proof -
  have "window_total big_ndl 0 0 1676 1676
      = (\<Sum>j<(1676::nat). \<Sum>i<(1676::nat). if i = 0 \<and> j = 0 then 765 else 0)"
    unfolding window_total_sum
    by (intro sum.cong refl) (simp add: at_pt_big_ndl px_total_white px_total_black)
  then show ?thesis by (simp only: sum_single) simp
qed

lemma window_total_big_hay: "window_total big_hay (Suc 0) (Suc 0) 1676 1676 = 0"
proof -
  have "window_total big_hay (Suc 0) (Suc 0) 1676 1676 = (\<Sum>j<(1676::nat). \<Sum>i<(1676::nat). 0)"
    unfolding window_total_sum
    by (intro sum.cong refl) (simp add: at_pt_big_hay px_total_black)
  then show ?thesis by simp
qed

lemma sad_total_big: "sad_total big_hay big_ndl 0 0 = 765"
proof -
  have w: "px_absdiff black white = 765" and b: "px_absdiff black black = 0"
    by (simp_all add: px_absdiff_def black_def white_def)
  have "sad_total big_hay big_ndl 0 0
      = (\<Sum>j<(1676::nat). \<Sum>i<(1676::nat). if i = 0 \<and> j = 0 then 765 else 0)"
    unfolding sad_total_sum big_dims
    by (intro sum.cong refl) (simp add: at_pt_big_ndl at_pt_big_hay w b)
  then show ?thesis by (simp only: sum_single) simp
qed

lemma ns_big: "at_rc (integral big_ndl) 1675 1675 = 765"
  using needle_total_cell [of big_ndl] by (simp add: window_total_big_ndl)

lemma window_sum_big: "window_sum (integral big_hay) 1676 1676 0 0 = 0"
  using window_sum_shifted [of 0 1676 big_hay 0 1676] by (simp add: window_total_big_hay)

lemma candidates_big:
  "candidates big_hay big_ndl = [\<lparr>item_diff = 765, item_x = 0, item_y = 0, item_sum = 0\<rparr>]"
proof -
  have "c_abs (0 - 765) = (765 :: int32)" by code_simp
  then have "candidate (integral big_hay) 1676 1676 765 0 0
      = \<lparr>item_diff = 765, item_x = 0, item_y = 0, item_sum = 0\<rparr>"
    by (simp add: candidate_def Let_def window_sum_big)
  moreover have "scan_items (integral big_hay) 1676 1676 765
      = [candidate (integral big_hay) 1676 1676 765 0 0]"
    by (simp add: scan_items_def)
  ultimately show ?thesis
    by (simp add: candidates_def Let_def scan_eq_fold ns_big deq_add_def)
qed

lemma sad_big: "sad big_hay big_ndl \<lparr>item_diff = 765, item_x = 0, item_y = 0, item_sum = 0\<rparr> = 765"
  by (simp add: sad_eq sad_total_big)

lemma max_sad_big: "sint (max_sad big_ndl) = - 2146100656"
  by (simp add: max_sad_def)

theorem confidence_overflow_counterexample:
  "\<not> empty_mat big_hay \<and> \<not> empty_mat big_ndl \<and> candidates big_hay big_ndl \<noteq> []
   \<and> tpl_main big_hay big_ndl
       = Inr \<lparr>result = 1 + 765 / 2146100656, min_sad = 765, rx = 0, ry = 0\<rparr>"
proof -
  have e: "\<not> empty_mat big_hay" "\<not> empty_mat big_ndl"
    by (simp_all add: empty_mat_def)
  have lt: "(765 :: uint64) < scast (2147483647 :: int32)" by simp
  have mn: "sint (ucast (765 :: uint64) :: int32) = 765" by simp
  have "brute_force big_hay big_ndl (max_sad big_ndl)
          [\<lparr>item_diff = 765, item_x = 0, item_y = 0, item_sum = 0\<rparr>]
          \<lparr>result = 0, min_sad = 2147483647, rx = - 1, ry = - 1\<rparr>
        = \<lparr>result = 1 - real_of_int 765 / real_of_int (- 2146100656), min_sad = 765, rx = 0, ry = 0\<rparr>"
    by (simp only: brute_force.simps Let_def sad_big max_sad_big) (simp add: lt)
  then show ?thesis
    using e by (simp add: tpl_main_def Let_def candidates_big init_state_def)
qed

lemma px_absdiff_eq_0: "px_absdiff c1 c2 = 0 \<longleftrightarrow> c1 = c2"
proof -
  have "\<bar>uint a - uint b\<bar> = 0 \<longleftrightarrow> a = b" for a b :: uchar
    by (simp add: word_uint_eq_iff)
  moreover have "0 \<le> \<bar>uint a - uint b\<bar>" for a b :: uchar by simp
  ultimately show ?thesis
    unfolding px_absdiff_def
    by (metis (no_types, opaque_lifting) abs_ge_zero add_nonneg_eq_0_iff add_nonneg_nonneg vec3b.expand)
qed

lemma sad_total_eq_0:
  "sad_total haystack needle x y = 0 \<longleftrightarrow>
     (\<forall>j<rows needle. \<forall>i<cols needle. at_pt haystack (x + i) (y + j) = at_pt needle i j)"
proof -
  let ?f = "\<lambda>j i. px_absdiff (at_pt haystack (x + i) (y + j)) (at_pt needle i j)"
  have inner: "(\<Sum>i<cols needle. ?f j i) = 0 \<longleftrightarrow> (\<forall>i<cols needle. ?f j i = 0)" for j
    by (subst sum_nonneg_eq_0_iff) (auto simp: px_absdiff_bounds)
  have "(\<Sum>j<rows needle. \<Sum>i<cols needle. ?f j i) = 0
      \<longleftrightarrow> (\<forall>j<rows needle. (\<Sum>i<cols needle. ?f j i) = 0)"
    by (subst sum_nonneg_eq_0_iff) (auto simp: px_absdiff_bounds sum_nonneg)
  then show ?thesis
    by (simp add: sad_total_sum inner px_absdiff_eq_0)
qed


lemma copied_at_iff:
  "copied_at haystack needle x0 y0 \<longleftrightarrow>
     x0 + cols needle \<le> cols haystack \<and> y0 + rows needle \<le> rows haystack
     \<and> sad_total haystack needle x0 y0 = 0"
  by (auto simp: copied_at_def sad_total_eq_0 list_all_iff)

lemma ratio_eq_1:
  fixes t m :: int
  assumes "0 < m"
  shows "1 - real_of_int t / real_of_int m = 1 \<longleftrightarrow> t = 0"
  using assms by simp

text \<open>When the loop ends with confidence 1, the window at the location it reports is the needle.\<close>

lemma brute_force_one:
  assumes "0 < rows needle" "0 < cols needle"
    and "765 * int (cols needle) * int (rows needle) < 2 ^ 31"
    and "result st = 1 \<longrightarrow> sad_total haystack needle (nat (rx st)) (nat (ry st)) = 0"
  shows "result (brute_force haystack needle (max_sad needle) deq st) = 1 \<longrightarrow>
         sad_total haystack needle (nat (rx (brute_force haystack needle (max_sad needle) deq st)))
                                   (nat (ry (brute_force haystack needle (max_sad needle) deq st))) = 0"
  using assms(4)
proof (induction deq arbitrary: st)
  case Nil
  then show ?case by simp
next
  case (Cons c cs)
  let ?T = "sad_total haystack needle (item_x c) (item_y c)"
  let ?M = "765 * int (cols needle) * int (rows needle)"
  have M: "0 < ?M" using assms(1,2) by simp
  define s where "s = sad haystack needle c"
  define st' where "st' = (if s < scast (min_sad st)
              then let mn = (ucast s :: int32)
                   in \<lparr>result = 1 - real_of_int (sint mn) / real_of_int (sint (max_sad needle)),
                       min_sad = mn, rx = int (item_x c), ry = int (item_y c)\<rparr>
              else st)"
  have step: "brute_force haystack needle (max_sad needle) (c # cs) st
      = (if s = 0 then st' else brute_force haystack needle (max_sad needle) cs st')"
    by (simp only: brute_force.simps Let_def s_def st'_def)
  have st': "result st' = 1 \<longrightarrow> sad_total haystack needle (nat (rx st')) (nat (ry st')) = 0"
  proof (cases "s < scast (min_sad st)")
    case True
    have "result st' = 1 - real_of_int (sint (ucast s :: int32)) / real_of_int (sint (max_sad needle))"
      using True by (simp add: st'_def Let_def)
    also have "\<dots> = 1 - real_of_int ?T / real_of_int ?M"
      by (simp only: s_def sad_small(2) [OF assms(3)] sint_max_sad [OF assms(3)])
    finally have "result st' = 1 \<longleftrightarrow> ?T = 0"
      using ratio_eq_1 [OF M, of ?T] by simp
    moreover have "nat (rx st') = item_x c" "nat (ry st') = item_y c"
      using True by (simp_all add: st'_def Let_def)
    ultimately show ?thesis by simp
  next
    case False
    then show ?thesis using Cons.prems by (simp add: st'_def)
  qed
  show ?case
    unfolding step using st' Cons.IH [OF st'] by simp
qed

text \<open>
  C3 (as amended).  For images of non-zero area and a needle with
  \<open>765 * width * height < 2\<^sup>3\<^sup>1\<close>, when the candidate list is not empty and its
  first entry has diff 0: the result of the program, which takes the shortcut, has
  the confidence and the location that the brute-force loop yields from the state of
  lines 135 to 139 without the shortcut whenever the haystack window at the first
  entry's position is the needle, pixel by pixel; and for a needle with
  \<open>765 * width * height \<le> 2\<^sup>2\<^sup>4\<close>, where the rounded confidence is 1 only for
  \<open>min = 0\<close>, only then.
\<close>

theorem shortcut_agrees_iff_copy:
  fixes haystack needle :: "vec3b mat"
  defines "deq \<equiv> candidates haystack needle"
  defines "bf \<equiv> brute_force haystack needle (max_sad needle) deq (init_state [])"
  assumes "\<not> empty_mat haystack" and "\<not> empty_mat needle"
    and "765 * int (cols needle) * int (rows needle) < 2 ^ 31"
    and "deq \<noteq> []" and "item_diff (deq ! 0) = 0"
  shows "\<exists>st. tpl_main haystack needle = Inr st
            \<and> (copied_at haystack needle (item_x (deq ! 0)) (item_y (deq ! 0))
                 \<longrightarrow> result st = result bf \<and> rx st = rx bf \<and> ry st = ry bf)
            \<and> (765 * int (cols needle) * int (rows needle) \<le> 2 ^ 24
                 \<longrightarrow> result st = result bf \<and> rx st = rx bf \<and> ry st = ry bf
                 \<longrightarrow> copied_at haystack needle (item_x (deq ! 0)) (item_y (deq ! 0)))"
proof -
  have n: "0 < rows needle" "0 < cols needle"
    using assms(4) by (simp_all add: empty_mat_def)
  obtain c cs where d: "deq = c # cs" using assms(6) by (cases deq) auto
  have c: "item_diff c = 0" using assms(7) d by simp
  let ?sc = "\<lparr>result = 1, min_sad = 2147483647, rx = int (item_x c), ry = int (item_y c)\<rparr>"
  have main: "tpl_main haystack needle = Inr ?sc"
    using assms(3,4) d c unfolding deq_def
    by (simp add: tpl_main_def Let_def init_state_def)
  have "c \<in> set (candidates haystack needle)" using d by (simp add: deq_def)
  then have "c \<in> set (scan_items (integral haystack) (rows needle) (cols needle)
                 (at_rc (integral needle) (rows needle - 1) (cols needle - 1)))"
    using fold_deq_add_prefix_subset [OF prefix_order.refl]
    by (auto simp: candidates_def Let_def scan_eq_fold)
  from scan_items_D [OF this]
  have fit: "item_x c + cols needle \<le> cols haystack" "item_y c + rows needle \<le> rows haystack"
    by auto
  have copy: "copied_at haystack needle (item_x c) (item_y c)
      \<longleftrightarrow> sad_total haystack needle (item_x c) (item_y c) = 0"
    using fit by (simp add: copied_at_iff)
  have agree: "(result ?sc = result bf \<and> rx ?sc = rx bf \<and> ry ?sc = ry bf)
      \<longleftrightarrow> sad_total haystack needle (item_x c) (item_y c) = 0"
  proof
    assume a: "result ?sc = result bf \<and> rx ?sc = rx bf \<and> ry ?sc = ry bf"
    have "result (init_state []) = 1 \<longrightarrow>
          sad_total haystack needle (nat (rx (init_state []))) (nat (ry (init_state []))) = 0"
      by (simp add: init_state_def)
    from brute_force_one [OF n assms(5) this, of deq] a
    show "sad_total haystack needle (item_x c) (item_y c) = 0"
      unfolding bf_def [symmetric] by (metis match_state.select_convs(1,3,4) nat_int)
  next
    assume z: "sad_total haystack needle (item_x c) (item_y c) = 0"
    then have "sad haystack needle c = 0" by (simp add: sad_eq)
    then have "bf = \<lparr>result = 1, min_sad = 0, rx = int (item_x c), ry = int (item_y c)\<rparr>"
      by (simp add: bf_def d init_state_def Let_def)
    then show "result ?sc = result bf \<and> rx ?sc = rx bf \<and> ry ?sc = ry bf" by simp
  qed
  show ?thesis
    using main agree copy d by simp
qed

theorem shortcut_agrees_iff_copy_witness:
  "\<not> empty_mat hay_w \<and> \<not> empty_mat ndl_a
   \<and> 765 * int (cols ndl_a) * int (rows ndl_a) < 2 ^ 31
   \<and> 765 * int (cols ndl_a) * int (rows ndl_a) \<le> 2 ^ 24
   \<and> candidates hay_w ndl_a
        = [\<lparr>item_diff = 0, item_x = 1, item_y = 0, item_sum = 1\<rparr>,
           \<lparr>item_diff = 1, item_x = 0, item_y = 0, item_sum = 0\<rparr>]
   \<and> copied_at hay_w ndl_a (item_x (candidates hay_w ndl_a ! 0))
                              (item_y (candidates hay_w ndl_a ! 0))
   \<and> brute_force hay_w ndl_a (max_sad ndl_a) (candidates hay_w ndl_a) (init_state [])
        = \<lparr>result = 1, min_sad = 0, rx = 1, ry = 0\<rparr>
   \<and> (\<exists>st. tpl_main hay_w ndl_a = Inr st
         \<and> result st = result (brute_force hay_w ndl_a (max_sad ndl_a)
                                    (candidates hay_w ndl_a) (init_state []))
         \<and> rx st = rx (brute_force hay_w ndl_a (max_sad ndl_a)
                                    (candidates hay_w ndl_a) (init_state []))
         \<and> ry st = ry (brute_force hay_w ndl_a (max_sad ndl_a)
                                    (candidates hay_w ndl_a) (init_state [])))"
proof -
  have h: "\<not> empty_mat hay_w" "\<not> empty_mat ndl_a"
      "765 * int (cols ndl_a) * int (rows ndl_a) < 2 ^ 31"
      "candidates hay_w ndl_a \<noteq> []" "item_diff (candidates hay_w ndl_a ! 0) = 0"
    by code_simp+
  have v: "765 * int (cols ndl_a) * int (rows ndl_a) \<le> 2 ^ 24"
      "candidates hay_w ndl_a
        = [\<lparr>item_diff = 0, item_x = 1, item_y = 0, item_sum = 1\<rparr>,
           \<lparr>item_diff = 1, item_x = 0, item_y = 0, item_sum = 0\<rparr>]"
      "copied_at hay_w ndl_a (item_x (candidates hay_w ndl_a ! 0))
                             (item_y (candidates hay_w ndl_a ! 0))"
      "brute_force hay_w ndl_a (max_sad ndl_a) (candidates hay_w ndl_a) (init_state [])
        = \<lparr>result = 1, min_sad = 0, rx = 1, ry = 0\<rparr>"
    by code_simp+
  from shortcut_agrees_iff_copy [OF h] h(1-3) v show ?thesis by blast
qed

text \<open>
  The claim as stated fails on \<open>hay_g\<close> and \<open>ndl_a\<close>: every window of one pixel of
  \<open>hay_g\<close> has the intensity sum of the needle, whichever window the lookups
  address, so the first candidate has diff 0 and the shortcut reports confidence 1;
  the brute-force loop over the same list yields \<open>763 / 765\<close>.
\<close>

theorem shortcut_counterexample:
  "\<not> empty_mat hay_g \<and> \<not> empty_mat ndl_a
   \<and> candidates hay_g ndl_a \<noteq> [] \<and> item_diff (candidates hay_g ndl_a ! 0) = 0
   \<and> tpl_main hay_g ndl_a = Inr \<lparr>result = 1, min_sad = 2147483647, rx = 0, ry = 0\<rparr>
   \<and> brute_force hay_g ndl_a (max_sad ndl_a) (candidates hay_g ndl_a) (init_state [])
        = \<lparr>result = 763 / 765, min_sad = 2, rx = 0, ry = 0\<rparr>"
  by code_simp

text \<open>
  C7.  For images of non-zero area, when the needle is at least as wide or at least
  as high as the haystack, no position is scanned, the candidate list is empty, the
  brute-force loop changes nothing, and the program ends without error with
  confidence 0 and the location \<open>(-1, -1)\<close>.
\<close>

theorem oversized_needle_not_found:
  assumes "\<not> empty_mat haystack" and "\<not> empty_mat needle"
    and "cols haystack \<le> cols needle \<or> rows haystack \<le> rows needle"
  shows "scan_items (integral haystack) (rows needle) (cols needle)
           (at_rc (integral needle) (rows needle - 1) (cols needle - 1)) = []
       \<and> candidates haystack needle = []
       \<and> (\<forall>st. brute_force haystack needle (max_sad needle) (candidates haystack needle) st = st)
       \<and> tpl_main haystack needle
           = Inr \<lparr>result = 0, min_sad = 2147483647, rx = - 1, ry = - 1\<rparr>"
proof -
  have none: "scan_items (integral haystack) (rows needle) (cols needle) ns = []" for ns
    using assms(3) by (auto simp: scan_items_def)
  then have "candidates haystack needle = []"
    by (simp add: candidates_def Let_def scan_eq_fold)
  then show ?thesis
    using assms(1,2) none by (simp add: tpl_main_def Let_def init_state_def)
qed

theorem oversized_needle_not_found_witness:
  "\<not> empty_mat ndl_a \<and> \<not> empty_mat hay_a
   \<and> (cols ndl_a \<le> cols hay_a \<or> rows ndl_a \<le> rows hay_a)
   \<and> candidates ndl_a hay_a = []
   \<and> tpl_main ndl_a hay_a = Inr \<lparr>result = 0, min_sad = 2147483647, rx = - 1, ry = - 1\<rparr>"
proof -
  have h: "\<not> empty_mat ndl_a" "\<not> empty_mat hay_a"
      "cols ndl_a \<le> cols hay_a \<or> rows ndl_a \<le> rows hay_a"
    by code_simp+
  from oversized_needle_not_found [OF h] h show ?thesis by blast
qed

lemma brute_force_location:
  "(rx (brute_force haystack needle mx cs st) = rx st \<and> ry (brute_force haystack needle mx cs st) = ry st)
   \<or> (\<exists>c\<in>set cs. rx (brute_force haystack needle mx cs st) = int (item_x c)
                  \<and> ry (brute_force haystack needle mx cs st) = int (item_y c))"
proof (induction cs arbitrary: st)
  case Nil
  then show ?case by simp
next
  case (Cons c cs)
  define st' where "st' = (if sad haystack needle c < scast (min_sad st)
                 then let mn = (ucast (sad haystack needle c) :: int32)
                      in \<lparr>result = 1 - real_of_int (sint mn) / real_of_int (sint mx),
                          min_sad = mn, rx = int (item_x c), ry = int (item_y c)\<rparr>
                 else st)"
  have step: "brute_force haystack needle mx (c # cs) st
      = (if sad haystack needle c = 0 then st' else brute_force haystack needle mx cs st')"
    by (simp only: brute_force.simps Let_def st'_def)
  have st': "(rx st' = rx st \<and> ry st' = ry st) \<or> (rx st' = int (item_x c) \<and> ry st' = int (item_y c))"
    by (simp add: st'_def Let_def)
  show ?case
    unfolding step using st' Cons.IH [of st'] by (cases "sad haystack needle c = 0") auto
qed

text \<open>
  C10.  Every candidate in the list, at any point of the scan, has
  \<open>0 \<le> x < cols haystack - cols needle\<close> and \<open>0 \<le> y < rows haystack - rows needle\<close>;
  every pixel \<open>(x + i, y + j)\<close> the brute-force loop reads from the haystack lies
  within it; and the reported location is either \<open>(-1, -1)\<close> or within that range.
\<close>

theorem candidate_positions_in_range:
  fixes haystack needle :: "vec3b mat"
  defines "its \<equiv> scan_items (integral haystack) (rows needle) (cols needle)
                   (at_rc (integral needle) (rows needle - 1) (cols needle - 1))"
  assumes "mat_ok haystack"
  shows "(\<forall>p. prefix p its \<longrightarrow>
            (\<forall>c\<in>set (fold deq_add p []).
               int (item_x c) < int (cols haystack) - int (cols needle)
               \<and> int (item_y c) < int (rows haystack) - int (rows needle)))
       \<and> (\<forall>c\<in>set (candidates haystack needle). \<forall>i<cols needle. \<forall>j<rows needle.
              item_x c + i < cols haystack \<and> item_y c + j < rows haystack
              \<and> item_y c + j < length (data haystack)
              \<and> item_x c + i < length (data haystack ! (item_y c + j)))
       \<and> (\<forall>st. tpl_main haystack needle = Inr st \<longrightarrow>
              (rx st = - 1 \<and> ry st = - 1)
              \<or> (0 \<le> rx st \<and> rx st < int (cols haystack) - int (cols needle)
                  \<and> 0 \<le> ry st \<and> ry st < int (rows haystack) - int (rows needle)))"
proof -
  have range: "item_x c < cols haystack - cols needle \<and> item_y c < rows haystack - rows needle"
    if "c \<in> set its" for c
    using scan_items_D [OF that [unfolded its_def]] by auto
  have range_int: "int (item_x c) < int (cols haystack) - int (cols needle)
                 \<and> int (item_y c) < int (rows haystack) - int (rows needle)"
    if "c \<in> set its" for c
    using range [OF that] by linarith
  have cand: "candidates haystack needle = fold deq_add its []"
    by (simp add: candidates_def Let_def scan_eq_fold its_def)
  have sub: "set (candidates haystack needle) \<subseteq> set its"
    unfolding cand by (rule fold_deq_add_prefix_subset) simp
  have one: "\<forall>p. prefix p its \<longrightarrow>
            (\<forall>c\<in>set (fold deq_add p []).
               int (item_x c) < int (cols haystack) - int (cols needle)
               \<and> int (item_y c) < int (rows haystack) - int (rows needle))"
    using fold_deq_add_prefix_subset range_int by blast
  have two: "\<forall>c\<in>set (candidates haystack needle). \<forall>i<cols needle. \<forall>j<rows needle.
              item_x c + i < cols haystack \<and> item_y c + j < rows haystack
              \<and> item_y c + j < length (data haystack)
              \<and> item_x c + i < length (data haystack ! (item_y c + j))"
  proof (intro ballI allI impI)
    fix c i j assume c: "c \<in> set (candidates haystack needle)" and i: "i < cols needle" and j: "j < rows needle"
    from c sub range have "item_x c < cols haystack - cols needle" "item_y c < rows haystack - rows needle"
      by auto
    with i j have b: "item_x c + i < cols haystack" "item_y c + j < rows haystack" by simp_all
    with assms(2) show "item_x c + i < cols haystack \<and> item_y c + j < rows haystack
              \<and> item_y c + j < length (data haystack)
              \<and> item_x c + i < length (data haystack ! (item_y c + j))"
      by (simp add: mat_ok_def list_all_length)
  qed
  have three: "(rx st = - 1 \<and> ry st = - 1)
              \<or> (0 \<le> rx st \<and> rx st < int (cols haystack) - int (cols needle)
                  \<and> 0 \<le> ry st \<and> ry st < int (rows haystack) - int (rows needle))"
    if st: "tpl_main haystack needle = Inr st" for st
  proof -
    let ?deq = "candidates haystack needle"
    have in_range: "0 \<le> int (item_x c) \<and> int (item_x c) < int (cols haystack) - int (cols needle)
                  \<and> 0 \<le> int (item_y c) \<and> int (item_y c) < int (rows haystack) - int (rows needle)"
      if "c \<in> set ?deq" for c
      using that sub range_int [of c] by auto
    have init: "(rx (init_state ?deq) = - 1 \<and> ry (init_state ?deq) = - 1)
         \<or> (\<exists>c\<in>set ?deq. rx (init_state ?deq) = int (item_x c) \<and> ry (init_state ?deq) = int (item_y c))"
      by (cases ?deq) (auto simp: init_state_def Let_def)
    have "st = init_state ?deq \<or> st = brute_force haystack needle (max_sad needle) ?deq (init_state ?deq)"
      using st by (auto simp: tpl_main_def Let_def split: if_splits)
    then have "(rx st = - 1 \<and> ry st = - 1)
         \<or> (\<exists>c\<in>set ?deq. rx st = int (item_x c) \<and> ry st = int (item_y c))"
      using init brute_force_location [of haystack needle "max_sad needle" ?deq "init_state ?deq"]
      by auto
    then show ?thesis using in_range by auto
  qed
  from one two three show ?thesis by blast
qed

theorem candidate_positions_in_range_witness:
  "mat_ok hay_b
   \<and> tpl_main hay_b ndl_g1 = Inr \<lparr>result = 254 / 255, min_sad = 3, rx = 1, ry = 0\<rparr>
   \<and> (1::int) < int (cols hay_b) - int (cols ndl_g1)
   \<and> (0::int) < int (rows hay_b) - int (rows ndl_g1)"
proof -
  have h: "mat_ok hay_b" by code_simp
  have v: "tpl_main hay_b ndl_g1 = Inr \<lparr>result = 254 / 255, min_sad = 3, rx = 1, ry = 0\<rparr>"
    by code_simp
  from candidate_positions_in_range [OF h, of ndl_g1, THEN conjunct2, THEN conjunct2, rule_format, OF v]
  have "(1::int) < int (cols hay_b) - int (cols ndl_g1)
      \<and> (0::int) < int (rows hay_b) - int (rows ndl_g1)"
    by simp
  with h v show ?thesis by blast
qed

end
